theory Spec2Isabelle
  imports Main
begin

section \<open>ChatPage: the conversation and message lifecycle of the chat client\<close>

text \<open>
  The model follows the \<open>ChatPage\<close> component (the React page behind \<open>/chat\<close> and
  \<open>/chat/:conversationId\<close>). The component is a set of \<open>useState\<close> cells, event handlers
  and effects. Every handler that awaits a network call is split at its \<open>await\<close>: the part
  before it registers a request (together with the values its closure captured), and the
  part after it is a separate transition that fires when the request resolves or rejects.
  A handler reads the state of the latest render; what it reads after an \<open>await\<close> is still
  the value of the render in which it was started, so those values travel in the request.
  The state updates one handler makes are all applied before the next render, after which
  the effects run whose dependency has changed: the one on \<open>[conversationId]\<close> when the
  route parameter has changed, and the one on \<open>[navigate]\<close> as well, because the function
  \<open>useNavigate\<close> returns is a new one whenever the path changes. Both routes render the
  same component, which keeps its state when the route changes.

  JavaScript strings are modelled as \<open>string\<close>; code units above 255 are outside the model.
  Display-only parts (the \<open>user\<close> profile cell, scrolling, focus, logout) are left out.
\<close>

subsection \<open>Data\<close>

record shloka =
  sanskrit :: string
  translation :: string
  shloka_source :: string

record msg =
  msg_id :: string
  role :: string
  content :: string
  timestamp :: string
  msg_shloka :: "shloka option"

record conversation =
  conv_id :: string
  title :: string
  updated_at :: string

text \<open>The body of a successful \<open>POST /chat\<close>: \<open>response.data\<close>.\<close>

record chat_response =
  resp_message :: msg
  guru_response :: msg
  conversation_id :: string

text \<open>The two clock reads of \<open>handleSendMessage\<close>: \<open>Date.now()\<close> and
  \<open>new Date().toISOString()\<close>.\<close>

record clock =
  now :: nat
  iso :: string

datatype toast = ToastError string | ToastSuccess string

text \<open>
  A request in flight, with what the awaiting closure captured:
  \<^item> \<open>ChatPost tempId userMessage currentConversationId userId\<close> for \<open>handleSendMessage\<close>;
  \<^item> \<open>GetConversation convId\<close> for \<open>fetchConversation\<close>;
  \<^item> \<open>GetConversations uid\<close> for \<open>fetchConversations\<close>;
  \<^item> \<open>DeleteReq convId currentConversationId userId\<close> for \<open>handleDeleteConversation\<close>.
\<close>

datatype request =
    ChatPost string string "string option" "string option"
  | GetConversation string
  | GetConversations "string option"
  | DeleteReq string "string option" "string option"

text \<open>The \<open>useState\<close> cells of the page, the notifications shown, the requests in flight,
  and the entry \<open>pocketGuruUserId\<close> of local storage, which the page reads and never
  writes while it is open.\<close>

record chat_state =
  conversationId :: "string option"
  userId :: "string option"
  message :: string
  messages :: "msg list"
  conversations :: "conversation list"
  currentConversationId :: "string option"
  isLoading :: bool
  isSidebarOpen :: bool
  toasts :: "toast list"
  inflight :: "request list"
  storedUserId :: "string option"

subsection \<open>JavaScript helpers\<close>

text \<open>\<open>String.prototype.trim\<close>: white space and line terminators within Latin-1.\<close>

definition is_space :: "char \<Rightarrow> bool" where
  "is_space c = ((of_char c :: nat) \<in> {9, 10, 11, 12, 13, 32, 160})"

definition trim :: "string \<Rightarrow> string" where
  "trim s = rev (dropWhile is_space (rev (dropWhile is_space s)))"

text \<open>A string or \<open>null\<close>/\<open>undefined\<close> in a boolean position: falsy when absent or empty.\<close>

definition truthy :: "string option \<Rightarrow> bool" where
  "truthy v = (case v of None \<Rightarrow> False | Some c \<Rightarrow> c \<noteq> [])"

text \<open>The decimal rendering of a non-negative integer inside a template literal.\<close>

definition digit_char :: "nat \<Rightarrow> char" where
  "digit_char d = char_of (48 + d)"

function show_nat :: "nat \<Rightarrow> string" where
  "show_nat n = (if n < 10 then [digit_char n] else show_nat (n div 10) @ [digit_char (n mod 10)])"
  by pat_completeness auto
termination
  by (relation "measure (\<lambda>n. n)") auto

declare show_nat.simps [simp del]

subsection \<open>Mounting\<close>

text \<open>The initial values of the \<open>useState\<close> cells; \<open>cid\<close> is the route parameter and
  \<open>stored\<close> the user id in local storage.\<close>

definition initial_state :: "string option \<Rightarrow> string option \<Rightarrow> chat_state" where
  "initial_state cid stored =
     \<lparr>conversationId = cid, userId = None, message = [], messages = [],
      conversations = [],
      currentConversationId = (if truthy cid then cid else None),
      isLoading = False, isSidebarOpen = False, toasts = [], inflight = [],
      storedUserId = stored\<rparr>"

definition navigate :: "string option \<Rightarrow> chat_state \<Rightarrow> chat_state" where
  "navigate p s = s\<lparr>conversationId := p\<rparr>"

definition fetchConversations :: "string option \<Rightarrow> chat_state \<Rightarrow> chat_state" where
  "fetchConversations uid s = s\<lparr>inflight := inflight s @ [GetConversations uid]\<rparr>"

definition fetchConversation :: "string \<Rightarrow> chat_state \<Rightarrow> chat_state" where
  "fetchConversation convId s = s\<lparr>inflight := inflight s @ [GetConversation convId]\<rparr>"

text \<open>The body of the effect on \<open>[conversationId]\<close>.\<close>

definition conversationId_effect_body :: "chat_state \<Rightarrow> chat_state" where
  "conversationId_effect_body s =
     (case conversationId s of
        None \<Rightarrow> s
      | Some c \<Rightarrow>
          if c \<noteq> [] \<and> Some c \<noteq> currentConversationId s
          then fetchConversation c (s\<lparr>currentConversationId := Some c\<rparr>)
          else s)"

text \<open>The body of the effect on \<open>[navigate]\<close>, with the stored user id read from local
  storage: without one the page leaves for onboarding and nothing is fetched.\<close>

definition navigate_effect_body :: "chat_state \<Rightarrow> chat_state" where
  "navigate_effect_body s =
     (if \<not> truthy (storedUserId s) then s
      else fetchConversations (storedUserId s) (s\<lparr>userId := storedUserId s\<rparr>))"

text \<open>
  The effects after a render, in the order of their declaration. Both run at mount. Later
  each runs only when its dependency differs from the one of the previous render; the
  path and the route parameter change together, so \<open>prev\<close>, the route parameter of the
  previous render, decides for both.
\<close>

definition effects :: "string option \<Rightarrow> chat_state \<Rightarrow> chat_state" where
  "effects prev s =
     (if conversationId s = prev then s
      else conversationId_effect_body (navigate_effect_body s))"

definition mount :: "string option \<Rightarrow> string option \<Rightarrow> chat_state" where
  "mount cid stored =
     conversationId_effect_body (navigate_effect_body (initial_state cid stored))"

subsection \<open>Handlers\<close>

definition handleSendMessage :: "clock \<Rightarrow> chat_state \<Rightarrow> chat_state" where
  "handleSendMessage clk s =
     (if trim (message s) = [] \<or> isLoading s then s
      else
        let userMessage = trim (message s);
            tempUserMsg = \<lparr>msg_id = ''temp-'' @ show_nat (now clk), role = ''user'',
                           content = userMessage, timestamp = iso clk,
                           msg_shloka = None\<rparr>
        in s\<lparr>message := [],
             isLoading := True,
             messages := messages s @ [tempUserMsg],
             inflight := inflight s @
               [ChatPost (msg_id tempUserMsg) userMessage (currentConversationId s) (userId s)]\<rparr>)"

text \<open>The \<open>try\<close> block after the \<open>await\<close>, followed by \<open>finally\<close>.\<close>

definition handleSendMessage_resolved ::
  "string \<Rightarrow> string option \<Rightarrow> string option \<Rightarrow> chat_response \<Rightarrow> chat_state \<Rightarrow> chat_state" where
  "handleSendMessage_resolved tempId cur uid resp s =
     (let s1 = s\<lparr>messages := filter (\<lambda>m. msg_id m \<noteq> tempId) (messages s) @
                               [resp_message resp, guru_response resp]\<rparr>;
          s2 = (if \<not> truthy cur
                then navigate (Some (conversation_id resp))
                       (s1\<lparr>currentConversationId := Some (conversation_id resp)\<rparr>)
                else s1);
          s3 = fetchConversations uid s2
      in s3\<lparr>isLoading := False\<rparr>)"

text \<open>The \<open>catch\<close> block, followed by \<open>finally\<close>.\<close>

definition handleSendMessage_rejected :: "string \<Rightarrow> string \<Rightarrow> chat_state \<Rightarrow> chat_state" where
  "handleSendMessage_rejected tempId userMessage s =
     s\<lparr>toasts := toasts s @ [ToastError ''Failed to send message. Please try again.''],
       messages := filter (\<lambda>m. msg_id m \<noteq> tempId) (messages s),
       message := userMessage,
       isLoading := False\<rparr>"

definition handleNewConversation :: "chat_state \<Rightarrow> chat_state" where
  "handleNewConversation s =
     navigate None (s\<lparr>currentConversationId := None, messages := [], isSidebarOpen := False\<rparr>)"

definition handleSelectConversation :: "string \<Rightarrow> chat_state \<Rightarrow> chat_state" where
  "handleSelectConversation convId s =
     navigate (Some convId)
       ((fetchConversation convId (s\<lparr>currentConversationId := Some convId\<rparr>))
          \<lparr>isSidebarOpen := False\<rparr>)"

text \<open>\<open>setMessages(response.data.messages || [])\<close>.\<close>

definition fetchConversation_resolved :: "msg list option \<Rightarrow> chat_state \<Rightarrow> chat_state" where
  "fetchConversation_resolved ms s =
     s\<lparr>messages := (case ms of None \<Rightarrow> [] | Some l \<Rightarrow> l)\<rparr>"

definition fetchConversations_resolved :: "conversation list \<Rightarrow> chat_state \<Rightarrow> chat_state" where
  "fetchConversations_resolved cs s = s\<lparr>conversations := cs\<rparr>"

definition handleDeleteConversation :: "string \<Rightarrow> chat_state \<Rightarrow> chat_state" where
  "handleDeleteConversation convId s =
     s\<lparr>inflight := inflight s @ [DeleteReq convId (currentConversationId s) (userId s)]\<rparr>"

definition handleDeleteConversation_resolved ::
  "string \<Rightarrow> string option \<Rightarrow> string option \<Rightarrow> chat_state \<Rightarrow> chat_state" where
  "handleDeleteConversation_resolved convId cur uid s =
     (let s1 = s\<lparr>toasts := toasts s @ [ToastSuccess ''Conversation deleted'']\<rparr>;
          s2 = fetchConversations uid s1
      in if Some convId = cur then handleNewConversation s2 else s2)"

definition handleDeleteConversation_rejected :: "chat_state \<Rightarrow> chat_state" where
  "handleDeleteConversation_rejected s =
     s\<lparr>toasts := toasts s @ [ToastError ''Failed to delete conversation'']\<rparr>"

subsection \<open>Events\<close>

text \<open>
  What can happen to a mounted page: the user types or picks a quick prompt, submits the
  form, clicks in the sidebar, the address changes from outside, or a request in flight
  settles. A settlement names its request; it is ignored unless that request is in flight.
  Every event is allowed in every state. The page itself is stricter: it disables the
  input and the send button while \<open>isLoading\<close> is set and offers the quick prompts only
  when the transcript is empty, so the handlers see no more than what is modelled here.
\<close>

datatype event =
    SetMessage string
  | Submit clock
  | ClickNew
  | ClickSelect string
  | ClickDelete string
  | UrlChanged "string option"
  | SetSidebar bool
  | Resolved_chat request chat_response
  | Resolved_conversation request "msg list option"
  | Resolved_conversations request "conversation list"
  | Resolved_delete request
  | Rejected request

definition settle :: "request \<Rightarrow> chat_state \<Rightarrow> chat_state" where
  "settle req s = s\<lparr>inflight := remove1 req (inflight s)\<rparr>"

fun handle :: "event \<Rightarrow> chat_state \<Rightarrow> chat_state" where
  "handle (SetMessage txt) s = s\<lparr>message := txt\<rparr>"
| "handle (Submit clk) s = handleSendMessage clk s"
| "handle ClickNew s = handleNewConversation s"
| "handle (ClickSelect convId) s = handleSelectConversation convId s"
| "handle (ClickDelete convId) s = handleDeleteConversation convId s"
| "handle (UrlChanged p) s = navigate p s"
| "handle (SetSidebar b) s = s\<lparr>isSidebarOpen := b\<rparr>"
| "handle (Resolved_chat req resp) s =
     (if req \<notin> set (inflight s) then s
      else case req of
             ChatPost tempId userMessage cur uid \<Rightarrow>
               handleSendMessage_resolved tempId cur uid resp (settle req s)
           | _ \<Rightarrow> s)"
| "handle (Resolved_conversation req ms) s =
     (if req \<notin> set (inflight s) then s
      else case req of
             GetConversation convId \<Rightarrow> fetchConversation_resolved ms (settle req s)
           | _ \<Rightarrow> s)"
| "handle (Resolved_conversations req cs) s =
     (if req \<notin> set (inflight s) then s
      else case req of
             GetConversations uid \<Rightarrow> fetchConversations_resolved cs (settle req s)
           | _ \<Rightarrow> s)"
| "handle (Resolved_delete req) s =
     (if req \<notin> set (inflight s) then s
      else case req of
             DeleteReq convId cur uid \<Rightarrow>
               handleDeleteConversation_resolved convId cur uid (settle req s)
           | _ \<Rightarrow> s)"
| "handle (Rejected req) s =
     (if req \<notin> set (inflight s) then s
      else case req of
             ChatPost tempId userMessage cur uid \<Rightarrow>
               handleSendMessage_rejected tempId userMessage (settle req s)
           | DeleteReq convId cur uid \<Rightarrow> handleDeleteConversation_rejected (settle req s)
           | _ \<Rightarrow> settle req s)"

text \<open>One event: the handler, then the render and the effects.\<close>

definition step :: "event \<Rightarrow> chat_state \<Rightarrow> chat_state" where
  "step e s = effects (conversationId s) (handle e s)"

definition run :: "event list \<Rightarrow> chat_state \<Rightarrow> chat_state" where
  "run es s = foldl (\<lambda>st e. step e st) s es"

subsection \<open>Transient entries and reachable states\<close>

text \<open>A transient (pending) entry is one that carries a locally made id, \<open>temp-...\<close>;
  every other entry counts as confirmed.\<close>

definition is_transient :: "msg \<Rightarrow> bool" where
  "is_transient m = (take 5 (msg_id m) = ''temp-'')"

definition pending_count :: "chat_state \<Rightarrow> nat" where
  "pending_count s = length (filter is_transient (messages s))"

definition confirmed_count :: "chat_state \<Rightarrow> nat" where
  "confirmed_count s = length (filter (\<lambda>m. \<not> is_transient m) (messages s))"

text \<open>The server hands out durable ids only: no message it returns carries a
  \<open>temp-\<close> id.\<close>

fun wf_event :: "event \<Rightarrow> bool" where
  "wf_event (Resolved_chat req resp) =
     (\<not> is_transient (resp_message resp) \<and> \<not> is_transient (guru_response resp))"
| "wf_event (Resolved_conversation req ms) =
     (case ms of None \<Rightarrow> True | Some l \<Rightarrow> list_all (\<lambda>m. \<not> is_transient m) l)"
| "wf_event _ = True"

inductive reachable :: "chat_state \<Rightarrow> bool" where
  reachable_mount: "reachable (mount cid stored)"
| reachable_step: "reachable s \<Longrightarrow> wf_event e \<Longrightarrow> reachable (step e s)"

text \<open>The requests that load the messages of a conversation.\<close>

fun is_history_load :: "request \<Rightarrow> bool" where
  "is_history_load (GetConversation convId) = True"
| "is_history_load _ = False"

subsection \<open>The single send in flight\<close>

fun is_chat :: "request \<Rightarrow> bool" where
  "is_chat (ChatPost t u c uid) = True"
| "is_chat _ = False"

fun temp_of :: "request \<Rightarrow> string" where
  "temp_of (ChatPost t u c uid) = t"
| "temp_of _ = []"

definition chats :: "chat_state \<Rightarrow> request list" where
  "chats s = filter is_chat (inflight s)"

text \<open>
  What the \<open>isLoading\<close> gate maintains: exactly one send is in flight while the flag is
  set and none otherwise, every transient entry of the transcript belongs to a send in
  flight, and there is at most one such entry.
\<close>

definition send_inv :: "chat_state \<Rightarrow> bool" where
  "send_inv s =
     ((if isLoading s then length (chats s) = 1 else chats s = []) \<and>
      (\<forall>m \<in> set (messages s).
         is_transient m \<longrightarrow> (\<exists>r \<in> set (chats s). temp_of r = msg_id m)) \<and>
      pending_count s \<le> 1)"

subsection \<open>Sample data\<close>

definition clk0 :: clock where
  "clk0 = \<lparr>now = 1700000000000, iso = ''2023-11-14T22:13:20.000Z''\<rparr>"

definition temp0 :: string where
  "temp0 = ''temp-'' @ show_nat (now clk0)"

definition srv_user :: msg where
  "srv_user = \<lparr>msg_id = ''m-101'', role = ''user'', content = ''hello'',
               timestamp = ''2023-11-14T22:13:21.000Z'', msg_shloka = None\<rparr>"

definition srv_guru :: msg where
  "srv_guru = \<lparr>msg_id = ''m-102'', role = ''assistant'', content = ''Namaste'',
               timestamp = ''2023-11-14T22:13:22.000Z'', msg_shloka = None\<rparr>"

definition hist_a :: msg where
  "hist_a = \<lparr>msg_id = ''m-3'', role = ''user'', content = ''I feel stressed'',
              timestamp = ''2023-11-02T09:30:00.000Z'', msg_shloka = None\<rparr>"

definition hist_b :: msg where
  "hist_b = \<lparr>msg_id = ''m-7'', role = ''user'', content = ''Guide me on my path'',
              timestamp = ''2023-11-01T08:00:00.000Z'', msg_shloka = None\<rparr>"

definition conv_a :: conversation where
  "conv_a = \<lparr>conv_id = ''A'', title = ''I feel stressed'',
              updated_at = ''2023-11-02T09:30:00.000Z''\<rparr>"

definition conv_b :: conversation where
  "conv_b = \<lparr>conv_id = ''B'', title = ''Guide me on my path'',
              updated_at = ''2023-11-01T08:00:00.000Z''\<rparr>"

definition resp0 :: chat_response where
  "resp0 = \<lparr>resp_message = srv_user, guru_response = srv_guru, conversation_id = ''A''\<rparr>"

text \<open>A page whose sidebar lists the conversations \<open>A\<close> and \<open>B\<close> and whose user has opened
  \<open>A\<close>, with the history of \<open>A\<close> and the list refresh that the change of path started both
  arrived; then the user types \<open>hello\<close> and submits it, which puts \<open>req0\<close> in flight.\<close>

definition opened :: chat_state where
  "opened = run [Resolved_conversations (GetConversations (Some ''u1'')) [conv_a, conv_b],
                 ClickSelect ''A'',
                 Resolved_conversation (GetConversation ''A'') (Some [hist_a]),
                 Resolved_conversations (GetConversations (Some ''u1'')) [conv_a, conv_b]]
              (mount None (Some ''u1''))"

definition typed :: chat_state where
  "typed = step (SetMessage ''hello'') opened"

definition sending :: chat_state where
  "sending = step (Submit clk0) typed"

definition req0 :: request where
  "req0 = ChatPost temp0 ''hello'' (Some ''A'') (Some ''u1'')"

text \<open>While \<open>req0\<close> is in flight the user opens conversation \<open>B\<close>, whose history arrives.\<close>

definition navigated :: chat_state where
  "navigated = run [ClickSelect ''B'',
                    Resolved_conversation (GetConversation ''B'') (Some [hist_b])] sending"

text \<open>While \<open>req0\<close> is in flight the user asks for a new conversation.\<close>

definition abandoned :: chat_state where
  "abandoned = step ClickNew sending"

text \<open>The send on \<open>A\<close> confirmed with nothing in between.\<close>

definition chatted :: chat_state where
  "chatted = step (Resolved_chat req0 resp0) sending"

text \<open>A page with no conversation open whose user types a padded first question and
  submits it, which puts \<open>req_draft\<close> in flight.\<close>

definition padded :: chat_state where
  "padded = step (SetMessage '' What is dharma?  '') (mount None (Some ''u1''))"

definition drafting :: chat_state where
  "drafting = step (Submit clk0) padded"

definition req_draft :: request where
  "req_draft = ChatPost temp0 ''What is dharma?'' None (Some ''u1'')"

section \<open>The invariant of the send pipeline\<close>

lemma effect_frame [simp]:
  "messages (effects p s) = messages s"
  "isLoading (effects p s) = isLoading s"
  "chats (effects p s) = chats s"
  "message (effects p s) = message s"
  "toasts (effects p s) = toasts s"
  "conversations (effects p s) = conversations s"
  "conversationId (effects p s) = conversationId s"
  "storedUserId (effects p s) = storedUserId s"
  by (simp_all add: effects_def conversationId_effect_body_def navigate_effect_body_def
      fetchConversation_def fetchConversations_def chats_def split: option.splits)

lemma send_inv_effect: "send_inv (effects p s) = send_inv s"
  by (simp add: send_inv_def pending_count_def)

lemma send_inv_mount: "send_inv (mount cid stored)"
  by (simp add: send_inv_def mount_def conversationId_effect_body_def navigate_effect_body_def
      initial_state_def fetchConversation_def fetchConversations_def chats_def
      pending_count_def split: option.splits)

lemma send_inv_submit: "send_inv s \<Longrightarrow> send_inv (handleSendMessage clk s)"
  by (auto simp: send_inv_def handleSendMessage_def Let_def chats_def pending_count_def is_transient_def filter_empty_conv)

lemma chats_settle: "chats (settle req s) = remove1 req (chats s)"
  by (simp add: chats_def settle_def filter_remove1)

lemma chats_settle_other: "\<not> is_chat req \<Longrightarrow> chats (settle req s) = chats s"
  unfolding chats_settle by (simp add: remove1_idem chats_def)

lemma settle_frame [simp]:
  "messages (settle req s) = messages s"
  "isLoading (settle req s) = isLoading s"
  by (simp_all add: settle_def)

lemma send_inv_settle_other: "\<not> is_chat req \<Longrightarrow> send_inv (settle req s) = send_inv s"
  by (simp add: send_inv_def chats_settle_other pending_count_def)

lemma send_inv_chat_in_flight:
  assumes "send_inv s" "ChatPost t u c uid \<in> set (inflight s)"
  shows "chats s = [ChatPost t u c uid] \<and> isLoading s"
proof -
  have m: "ChatPost t u c uid \<in> set (chats s)" using assms(2) by (simp add: chats_def)
  then have l: "isLoading s" using assms(1) by (auto simp: send_inv_def split: if_splits)
  then have "length (chats s) = 1" using assms(1) by (simp add: send_inv_def)
  then obtain r where "chats s = [r]" by (cases "chats s") auto
  with m l show ?thesis by simp
qed

lemma send_inv_no_transient_left:
  assumes "send_inv s" "ChatPost t u c uid \<in> set (inflight s)"
  shows "filter is_transient (filter (\<lambda>m. msg_id m \<noteq> t) (messages s)) = []"
proof -
  have "chats s = [ChatPost t u c uid]" using send_inv_chat_in_flight [OF assms] by simp
  then have "\<forall>m \<in> set (messages s). is_transient m \<longrightarrow> msg_id m = t"
    using assms(1) by (auto simp: send_inv_def)
  then show ?thesis by (auto simp: filter_empty_conv)
qed

lemma send_inv_resolved:
  assumes "send_inv s" "ChatPost t u c uid \<in> set (inflight s)"
    "\<not> is_transient (resp_message resp)" "\<not> is_transient (guru_response resp)"
  shows "send_inv (handleSendMessage_resolved t c uid resp (settle (ChatPost t u c uid) s))"
proof -
  have c: "chats s = [ChatPost t u c uid]" using send_inv_chat_in_flight [OF assms(1,2)] by simp
  have n: "filter is_transient (filter (\<lambda>m. msg_id m \<noteq> t) (messages s)) = []"
    by (rule send_inv_no_transient_left [OF assms(1,2)])
  let ?s' = "handleSendMessage_resolved t c uid resp (settle (ChatPost t u c uid) s)"
  have 1: "chats ?s' = []"
    using c by (simp add: handleSendMessage_resolved_def Let_def chats_def settle_def
        fetchConversations_def navigate_def filter_remove1)
  have 2: "messages ?s' = filter (\<lambda>m. msg_id m \<noteq> t) (messages s) @ [resp_message resp, guru_response resp]"
    by (simp add: handleSendMessage_resolved_def Let_def settle_def fetchConversations_def navigate_def)
  have 3: "\<not> isLoading ?s'"
    by (simp add: handleSendMessage_resolved_def Let_def)
  have 4: "filter is_transient (messages ?s') = []"
    using n assms(3,4) by (simp add: 2)
  show ?thesis using 1 3 4 by (simp add: send_inv_def pending_count_def filter_empty_conv)
qed

lemma send_inv_rejected:
  assumes "send_inv s" "ChatPost t u c uid \<in> set (inflight s)"
  shows "send_inv (handleSendMessage_rejected t u (settle (ChatPost t u c uid) s))"
proof -
  have c: "chats s = [ChatPost t u c uid]" using send_inv_chat_in_flight [OF assms(1,2)] by simp
  have n: "filter is_transient (filter (\<lambda>m. msg_id m \<noteq> t) (messages s)) = []"
    by (rule send_inv_no_transient_left [OF assms(1,2)])
  let ?s' = "handleSendMessage_rejected t u (settle (ChatPost t u c uid) s)"
  have 1: "chats ?s' = []"
    using c by (simp add: handleSendMessage_rejected_def chats_def settle_def filter_remove1)
  have 2: "messages ?s' = filter (\<lambda>m. msg_id m \<noteq> t) (messages s)"
    by (simp add: handleSendMessage_rejected_def settle_def)
  have 3: "\<not> isLoading ?s'"
    by (simp add: handleSendMessage_rejected_def)
  have 4: "filter is_transient (messages ?s') = []"
    using n by (simp add: 2)
  show ?thesis using 1 3 4 by (simp add: send_inv_def pending_count_def filter_empty_conv)
qed

lemma chats_frame [simp]:
  "chats (handleNewConversation s) = chats s"
  "chats (fetchConversations uid s) = chats s"
  "chats (fetchConversation c s) = chats s"
  "chats (navigate p s) = chats s"
  "chats (s\<lparr>toasts := ts\<rparr>) = chats s"
  "chats (s\<lparr>message := txt\<rparr>) = chats s"
  "chats (s\<lparr>isSidebarOpen := b\<rparr>) = chats s"
  "chats (s\<lparr>currentConversationId := cc\<rparr>) = chats s"
  "chats (s\<lparr>conversations := cs\<rparr>) = chats s"
  "chats (s\<lparr>messages := ms\<rparr>) = chats s"
  "chats (handleDeleteConversation c s) = chats s"
  by (simp_all add: chats_def handleNewConversation_def navigate_def fetchConversations_def
      fetchConversation_def handleDeleteConversation_def)

lemma send_inv_frame:
  "chats s' = chats s \<Longrightarrow> messages s' = messages s \<Longrightarrow> isLoading s' = isLoading s \<Longrightarrow>
   send_inv s' = send_inv s"
  by (simp add: send_inv_def pending_count_def)

lemma send_inv_new: "send_inv s \<Longrightarrow> send_inv (handleNewConversation s)"
  by (simp add: send_inv_def pending_count_def) (simp add: handleNewConversation_def navigate_def)

lemma send_inv_fetchConversations: "send_inv (fetchConversations uid s) = send_inv s"
  by (rule send_inv_frame) (simp_all, simp_all add: fetchConversations_def)

lemma send_inv_toast: "send_inv (s\<lparr>toasts := ts\<rparr>) = send_inv s"
  by (rule send_inv_frame) simp_all

lemma send_inv_loaded:
  "send_inv s \<Longrightarrow> (case ms of None \<Rightarrow> True | Some l \<Rightarrow> list_all (\<lambda>m. \<not> is_transient m) l) \<Longrightarrow>
   send_inv (fetchConversation_resolved ms s)"
  by (auto simp: send_inv_def fetchConversation_resolved_def pending_count_def
      list_all_iff filter_empty_conv split: option.splits)

lemma send_inv_listed: "send_inv (fetchConversations_resolved cs s) = send_inv s"
  by (rule send_inv_frame) (simp_all add: fetchConversations_resolved_def)

lemma send_inv_handle: "send_inv s \<Longrightarrow> wf_event e \<Longrightarrow> send_inv (handle e s)"
proof (cases e)
  case (SetMessage x)
  assume "send_inv s" then show ?thesis
    unfolding SetMessage handle.simps by (subst send_inv_frame [of _ s]) simp_all
next
  case (Submit clk)
  assume "send_inv s" then show ?thesis by (simp add: Submit send_inv_submit)
next
  case ClickNew
  assume "send_inv s" then show ?thesis by (simp add: ClickNew send_inv_new)
next
  case (ClickSelect c)
  assume "send_inv s" then show ?thesis
    unfolding ClickSelect handle.simps
    by (subst send_inv_frame [of _ s])
       (simp_all add: handleSelectConversation_def navigate_def fetchConversation_def chats_def)
next
  case (ClickDelete c)
  assume "send_inv s" then show ?thesis
    unfolding ClickDelete handle.simps
    by (subst send_inv_frame [of _ s]) (simp_all add: handleDeleteConversation_def chats_def)
next
  case (UrlChanged p)
  assume "send_inv s" then show ?thesis
    unfolding UrlChanged handle.simps
    by (subst send_inv_frame [of _ s]) (simp_all add: navigate_def chats_def)
next
  case (SetSidebar b)
  assume "send_inv s" then show ?thesis
    unfolding SetSidebar handle.simps by (subst send_inv_frame [of _ s]) simp_all
next
  case (Resolved_chat req resp)
  assume "send_inv s" "wf_event e" then show ?thesis
    by (cases req) (simp_all add: Resolved_chat send_inv_resolved)
next
  case (Resolved_conversation req ms)
  assume "send_inv s" "wf_event e" then show ?thesis
    by (cases req) (simp_all add: Resolved_conversation send_inv_loaded send_inv_settle_other)
next
  case (Resolved_conversations req cs)
  assume "send_inv s" then show ?thesis
    by (cases req) (simp_all add: Resolved_conversations send_inv_listed send_inv_settle_other)
next
  case (Resolved_delete req)
  assume "send_inv s" then show ?thesis
    by (cases req) (simp_all add: Resolved_delete handleDeleteConversation_resolved_def Let_def
        send_inv_new send_inv_fetchConversations send_inv_toast send_inv_settle_other)
next
  case (Rejected req)
  assume "send_inv s" then show ?thesis
    by (cases req) (simp_all add: Rejected send_inv_rejected handleDeleteConversation_rejected_def
        send_inv_toast send_inv_settle_other)
qed

lemma reachable_send_inv: "reachable s \<Longrightarrow> send_inv s"
  by (induction rule: reachable.induct) (simp_all add: send_inv_mount step_def send_inv_effect send_inv_handle)

section \<open>Single events and concrete runs\<close>

lemmas chat_defs = run_def step_def effects_def conversationId_effect_body_def
  mount_def navigate_effect_body_def initial_state_def navigate_def fetchConversations_def
  fetchConversation_def handleSendMessage_def handleSendMessage_resolved_def
  handleSendMessage_rejected_def handleNewConversation_def handleSelectConversation_def
  fetchConversation_resolved_def fetchConversations_resolved_def handleDeleteConversation_def
  handleDeleteConversation_resolved_def handleDeleteConversation_rejected_def settle_def
  truthy_def trim_def is_space_def Let_def

lemma reachable_run: "reachable s \<Longrightarrow> list_all wf_event es \<Longrightarrow> reachable (run es s)"
proof (induction es arbitrary: s)
  case Nil
  then show ?case by (simp add: run_def)
next
  case (Cons e es)
  from Cons.prems have "reachable (step e s)" by (simp add: reachable_step)
  with Cons.IH [of "step e s"] Cons.prems show ?case by (simp add: run_def)
qed

text \<open>After a handler of the page itself the effect on \<open>[conversationId]\<close> stays silent:
  each of them sets the active id before it navigates. The effect on \<open>[navigate]\<close> then
  only sets the user id again and refreshes the sidebar list.\<close>

lemma effects_quiet:
  assumes "conversationId s = currentConversationId s \<or> \<not> truthy (conversationId s)"
  shows "currentConversationId (effects p s) = currentConversationId s"
    and "inflight (effects p s) =
           inflight s @ (if conversationId s \<noteq> p \<and> truthy (storedUserId s)
                         then [GetConversations (storedUserId s)] else [])"
  using assms
  by (auto simp: effects_def conversationId_effect_body_def navigate_effect_body_def
      fetchConversations_def fetchConversation_def truthy_def split: option.splits)

lemma effects_same: "conversationId s = p \<Longrightarrow> effects p s = s"
  by (simp add: effects_def)

lemma step_submit: "step (Submit clk) s = handleSendMessage clk s"
  by (simp add: step_def effects_def handleSendMessage_def Let_def)

lemma step_set_message: "step (SetMessage x) s = s\<lparr>message := x\<rparr>"
  by (simp add: step_def effects_def)

lemma step_resolved_chat:
  "ChatPost t u cur uid \<in> set (inflight s) \<Longrightarrow>
   step (Resolved_chat (ChatPost t u cur uid) resp) s =
     effects (conversationId s)
       (handleSendMessage_resolved t cur uid resp (settle (ChatPost t u cur uid) s))"
  by (simp add: step_def)

lemma resolved_chat_fields:
  "messages (handleSendMessage_resolved t cur uid resp s) =
     filter (\<lambda>m. msg_id m \<noteq> t) (messages s) @ [resp_message resp, guru_response resp]"
  "currentConversationId (handleSendMessage_resolved t cur uid resp s) =
     (if truthy cur then currentConversationId s else Some (conversation_id resp))"
  "conversationId (handleSendMessage_resolved t cur uid resp s) =
     (if truthy cur then conversationId s else Some (conversation_id resp))"
  "inflight (handleSendMessage_resolved t cur uid resp s) = inflight s @ [GetConversations uid]"
  "isLoading (handleSendMessage_resolved t cur uid resp s) = False"
  "storedUserId (handleSendMessage_resolved t cur uid resp s) = storedUserId s"
  by (simp_all add: handleSendMessage_resolved_def navigate_def fetchConversations_def Let_def)

lemma resolved_chat_quiet:
  assumes "conversationId s = p"
  shows "currentConversationId (effects p (handleSendMessage_resolved t cur uid resp s)) =
     (if truthy cur then currentConversationId s else Some (conversation_id resp))"
proof (cases "truthy cur")
  case True
  with assms have "effects p (handleSendMessage_resolved t cur uid resp s) =
      handleSendMessage_resolved t cur uid resp s"
    by (simp add: effects_same resolved_chat_fields)
  with True show ?thesis by (simp add: resolved_chat_fields)
next
  case False
  then show ?thesis by (simp add: effects_quiet(1) resolved_chat_fields)
qed

lemma resolved_delete_fields:
  "messages (handleDeleteConversation_resolved c cur uid s) =
     (if Some c = cur then [] else messages s)"
  "currentConversationId (handleDeleteConversation_resolved c cur uid s) =
     (if Some c = cur then None else currentConversationId s)"
  "conversationId (handleDeleteConversation_resolved c cur uid s) =
     (if Some c = cur then None else conversationId s)"
  "inflight (handleDeleteConversation_resolved c cur uid s) = inflight s @ [GetConversations uid]"
  "message (handleDeleteConversation_resolved c cur uid s) = message s"
  "isLoading (handleDeleteConversation_resolved c cur uid s) = isLoading s"
  "conversations (handleDeleteConversation_resolved c cur uid s) = conversations s"
  by (simp_all add: handleDeleteConversation_resolved_def handleNewConversation_def navigate_def
      fetchConversations_def Let_def)

lemma step_rejected_chat:
  "ChatPost t u cur uid \<in> set (inflight s) \<Longrightarrow>
   step (Rejected (ChatPost t u cur uid)) s =
     handleSendMessage_rejected t u (settle (ChatPost t u cur uid) s)"
  by (simp add: step_def effects_def handleSendMessage_rejected_def settle_def)

lemma step_resolved_delete:
  "DeleteReq c cur uid \<in> set (inflight s) \<Longrightarrow>
   step (Resolved_delete (DeleteReq c cur uid)) s =
     effects (conversationId s)
       (handleDeleteConversation_resolved c cur uid (settle (DeleteReq c cur uid) s))"
  by (simp add: step_def)

lemma step_click_delete: "step (ClickDelete c) s = handleDeleteConversation c s"
  by (simp add: step_def effects_def handleDeleteConversation_def)

lemma accepted_submit:
  "\<not> isLoading s \<Longrightarrow> trim (message s) \<noteq> [] \<Longrightarrow>
   handleSendMessage clk s =
     s\<lparr>message := [], isLoading := True,
       messages := messages s @
         [\<lparr>msg_id = ''temp-'' @ show_nat (now clk), role = ''user'', content = trim (message s),
           timestamp = iso clk, msg_shloka = None\<rparr>],
       inflight := inflight s @
         [ChatPost (''temp-'' @ show_nat (now clk)) (trim (message s))
            (currentConversationId s) (userId s)]\<rparr>"
  by (simp add: handleSendMessage_def Let_def)

lemma idle_no_transient:
  assumes "send_inv s" "\<not> isLoading s"
  shows "filter is_transient (messages s) = []"
    and "filter (\<lambda>m. msg_id m \<noteq> ''temp-'' @ x) (messages s) = messages s"
proof -
  have "chats s = []" using assms by (simp add: send_inv_def)
  then have n: "\<forall>m \<in> set (messages s). \<not> is_transient m"
    using assms(1) by (auto simp: send_inv_def)
  then show "filter is_transient (messages s) = []" by (simp add: filter_empty_conv)
  have "\<forall>m \<in> set (messages s). msg_id m \<noteq> ''temp-'' @ x"
    using n by (auto simp: is_transient_def)
  then show "filter (\<lambda>m. msg_id m \<noteq> ''temp-'' @ x) (messages s) = messages s"
    by (simp add: filter_id_conv)
qed

lemma temp0_transient: "take 5 temp0 = ''temp-''"
  by (simp add: temp0_def)

lemma opened_eq:
  "opened = \<lparr>conversationId = Some ''A'', userId = Some ''u1'', message = [],
      messages = [hist_a], conversations = [conv_a, conv_b],
      currentConversationId = Some ''A'', isLoading = False, isSidebarOpen = False,
      toasts = [], inflight = [], storedUserId = Some ''u1''\<rparr>"
  by (simp add: opened_def chat_defs)

lemma reachable_opened: "reachable opened"
  unfolding opened_def
  by (rule reachable_run) (simp_all add: reachable_mount hist_a_def is_transient_def)

lemma typed_eq:
  "typed = \<lparr>conversationId = Some ''A'', userId = Some ''u1'', message = ''hello'',
      messages = [hist_a], conversations = [conv_a, conv_b],
      currentConversationId = Some ''A'', isLoading = False, isSidebarOpen = False,
      toasts = [], inflight = [], storedUserId = Some ''u1''\<rparr>"
  by (simp add: typed_def opened_eq step_set_message)

lemma reachable_typed: "reachable typed"
  unfolding typed_def by (rule reachable_step [OF reachable_opened]) simp

lemma sending_eq:
  "sending = \<lparr>conversationId = Some ''A'', userId = Some ''u1'', message = [],
      messages = [hist_a, \<lparr>msg_id = temp0, role = ''user'', content = ''hello'',
                           timestamp = iso clk0, msg_shloka = None\<rparr>],
      conversations = [conv_a, conv_b], currentConversationId = Some ''A'',
      isLoading = True, isSidebarOpen = False, toasts = [], inflight = [req0],
      storedUserId = Some ''u1''\<rparr>"
  by (simp add: sending_def typed_eq step_submit req0_def temp0_def handleSendMessage_def
      trim_def is_space_def Let_def)

lemma reachable_sending: "reachable sending"
  unfolding sending_def by (rule reachable_step [OF reachable_typed]) simp

lemma navigated_eq:
  "navigated = \<lparr>conversationId = Some ''B'', userId = Some ''u1'', message = [],
      messages = [hist_b], conversations = [conv_a, conv_b],
      currentConversationId = Some ''B'', isLoading = True, isSidebarOpen = False,
      toasts = [], inflight = [req0, GetConversations (Some ''u1'')],
      storedUserId = Some ''u1''\<rparr>"
  by (simp add: navigated_def sending_eq req0_def chat_defs)

lemma abandoned_eq:
  "abandoned = \<lparr>conversationId = None, userId = Some ''u1'', message = [],
      messages = [], conversations = [conv_a, conv_b],
      currentConversationId = None, isLoading = True, isSidebarOpen = False,
      toasts = [], inflight = [req0, GetConversations (Some ''u1'')],
      storedUserId = Some ''u1''\<rparr>"
  by (simp add: abandoned_def sending_eq chat_defs)

lemma chatted_eq:
  "chatted = \<lparr>conversationId = Some ''A'', userId = Some ''u1'', message = [],
      messages = [hist_a, srv_user, srv_guru], conversations = [conv_a, conv_b],
      currentConversationId = Some ''A'', isLoading = False, isSidebarOpen = False,
      toasts = [], inflight = [GetConversations (Some ''u1'')],
      storedUserId = Some ''u1''\<rparr>"
  by (simp add: chatted_def sending_eq req0_def resp0_def hist_a_def temp0_def chat_defs)

lemma padded_eq:
  "padded = \<lparr>conversationId = None, userId = Some ''u1'', message = '' What is dharma?  '',
      messages = [], conversations = [], currentConversationId = None, isLoading = False,
      isSidebarOpen = False, toasts = [], inflight = [GetConversations (Some ''u1'')],
      storedUserId = Some ''u1''\<rparr>"
  by (simp add: padded_def chat_defs)

lemma reachable_padded: "reachable padded"
  unfolding padded_def by (rule reachable_step [OF reachable_mount]) simp

lemma drafting_eq:
  "drafting = \<lparr>conversationId = None, userId = Some ''u1'', message = [],
      messages = [\<lparr>msg_id = temp0, role = ''user'', content = ''What is dharma?'',
                   timestamp = iso clk0, msg_shloka = None\<rparr>],
      conversations = [], currentConversationId = None, isLoading = True,
      isSidebarOpen = False, toasts = [],
      inflight = [GetConversations (Some ''u1''), req_draft],
      storedUserId = Some ''u1''\<rparr>"
  by (simp add: drafting_def padded_eq step_submit req_draft_def temp0_def handleSendMessage_def
      trim_def is_space_def Let_def)

section \<open>Properties\<close>

subsection \<open>C1: at most one pending message\<close>

text \<open>
  C1. In every reachable state of the page the transcript holds no transient entry or
  exactly one, and whatever happens next (a submission, the confirmation or the rollback
  of a send, a history load, a reset, a deletion) leaves it so. The server is taken to
  return durable ids only.
\<close>

theorem pending_at_most_one:
  "reachable s \<Longrightarrow> wf_event e \<Longrightarrow>
     (pending_count s = 0 \<or> pending_count s = 1) \<and>
     (pending_count (step e s) = 0 \<or> pending_count (step e s) = 1)"
proof -
  assume r: "reachable s" and w: "wf_event e"
  have "send_inv s" by (rule reachable_send_inv [OF r])
  moreover have "send_inv (step e s)" by (rule reachable_send_inv [OF reachable_step [OF r w]])
  ultimately show ?thesis by (auto simp: send_inv_def)
qed

theorem pending_at_most_one_witness:
  "reachable sending \<and> wf_event (Resolved_chat req0 resp0) \<and>
   pending_count sending = 1 \<and> pending_count (step (Resolved_chat req0 resp0) sending) = 0"
proof -
  have w: "wf_event (Resolved_chat req0 resp0)"
    by (simp add: resp0_def srv_user_def srv_guru_def is_transient_def)
  have 1: "pending_count sending = 1"
    by (simp add: sending_eq pending_count_def is_transient_def temp0_transient hist_a_def)
  have 2: "pending_count (step (Resolved_chat req0 resp0) sending) \<noteq> 1"
    by (simp add: chatted_eq [unfolded chatted_def] pending_count_def is_transient_def
        hist_a_def srv_user_def srv_guru_def)
  from pending_at_most_one [OF reachable_sending w] 1 2 w reachable_sending show ?thesis by simp
qed

subsection \<open>C2: a response that arrives after navigation\<close>

text \<open>
  C2, as stated, fails. A send is started on conversation \<open>A\<close>, the user opens \<open>B\<close>, whose
  history is shown, and then the response to the send arrives: it is not discarded. The
  transcript shown for \<open>B\<close> gains the user message and the reply that belong to \<open>A\<close>.
\<close>

theorem stale_response_lands_in_other_conversation:
  "currentConversationId sending = Some ''A'' \<and>
   req0 \<in> set (inflight sending) \<and>
   currentConversationId navigated = Some ''B'' \<and>
   messages navigated = [hist_b] \<and>
   currentConversationId (step (Resolved_chat req0 resp0) navigated) = Some ''B'' \<and>
   messages (step (Resolved_chat req0 resp0) navigated) = [hist_b, srv_user, srv_guru]"
  by (simp add: sending_eq navigated_eq req0_def resp0_def hist_b_def temp0_def chat_defs)

text \<open>
  C2, amended. The page keeps no record of which conversation a send was started on, so
  the response is applied to the transcript shown when it arrives, whichever conversation
  that is: the entries carrying the send's temporary id are removed and the server's user
  message and the reply are appended. The active conversation id is kept, unless the send
  was started with none, in which case the id of the response becomes the active one.
\<close>

theorem response_applied_to_shown_transcript:
  "ChatPost t u cur uid \<in> set (inflight s) \<Longrightarrow>
     messages (step (Resolved_chat (ChatPost t u cur uid) resp) s) =
       filter (\<lambda>m. msg_id m \<noteq> t) (messages s) @ [resp_message resp, guru_response resp] \<and>
     currentConversationId (step (Resolved_chat (ChatPost t u cur uid) resp) s) =
       (if truthy cur then currentConversationId s else Some (conversation_id resp))"
proof -
  assume i: "ChatPost t u cur uid \<in> set (inflight s)"
  have c: "conversationId (settle (ChatPost t u cur uid) s) = conversationId s"
    by (simp add: settle_def)
  show ?thesis
    by (simp add: step_resolved_chat [OF i] resolved_chat_fields resolved_chat_quiet [OF c])
       (simp add: settle_def)
qed

theorem response_applied_to_shown_transcript_witness:
  "ChatPost temp0 ''hello'' (Some ''A'') (Some ''u1'') \<in> set (inflight navigated) \<and>
   currentConversationId navigated \<noteq> Some ''A'' \<and>
   messages (step (Resolved_chat (ChatPost temp0 ''hello'' (Some ''A'') (Some ''u1'')) resp0)
               navigated) = [hist_b, srv_user, srv_guru] \<and>
   currentConversationId
     (step (Resolved_chat (ChatPost temp0 ''hello'' (Some ''A'') (Some ''u1'')) resp0)
        navigated) = Some ''B''"
proof -
  have i: "ChatPost temp0 ''hello'' (Some ''A'') (Some ''u1'') \<in> set (inflight navigated)"
    by (simp add: navigated_eq req0_def)
  from response_applied_to_shown_transcript [OF i, of resp0] i show ?thesis
    by (simp add: navigated_eq resp0_def hist_b_def temp0_def truthy_def)
qed

subsection \<open>C3: a send that fails\<close>

text \<open>
  C3, as stated, fails twice. First, the text put back into the input buffer is the
  trimmed one: the user submits \<open>'' What is dharma?  ''\<close>, the request rejects, and the
  buffer holds \<open>''What is dharma?''\<close>. Second, when the user opens \<open>B\<close> while the send on \<open>A\<close>
  is in flight, the transcript after the failure is the history of \<open>B\<close>, not the transcript
  of \<open>A\<close> from before the append.
\<close>

theorem failed_send_not_identical:
  "message padded = '' What is dharma?  '' \<and>
   req_draft \<in> set (inflight (step (Submit clk0) padded)) \<and>
   message (step (Rejected req_draft) (step (Submit clk0) padded)) = ''What is dharma?'' \<and>
   messages typed = [hist_a] \<and>
   sending = step (Submit clk0) typed \<and>
   req0 \<in> set (inflight navigated) \<and>
   messages (step (Rejected req0) navigated) = [hist_b]"
proof -
  have d: "req_draft \<in> set (inflight drafting)" by (simp add: drafting_eq)
  have "step (Rejected req_draft) drafting =
      handleSendMessage_rejected temp0 ''What is dharma?'' (settle req_draft drafting)"
    using d unfolding req_draft_def by (rule step_rejected_chat)
  then have 1: "message (step (Rejected req_draft) drafting) = ''What is dharma?''"
    by (simp add: handleSendMessage_rejected_def)
  have n: "req0 \<in> set (inflight navigated)" by (simp add: navigated_eq)
  have "step (Rejected req0) navigated =
      handleSendMessage_rejected temp0 ''hello'' (settle req0 navigated)"
    using n unfolding req0_def by (rule step_rejected_chat)
  then have 2: "messages (step (Rejected req0) navigated) = [hist_b]"
    by (simp add: handleSendMessage_rejected_def settle_def navigated_eq hist_b_def temp0_def)
  have 3: "message padded = '' What is dharma?  ''" "messages typed = [hist_a]"
    by (simp_all add: padded_eq typed_eq)
  show ?thesis using d 1 n 2 3 by (simp add: drafting_def sending_def)
qed

text \<open>
  C3, amended. For every send that fails while the transcript is still the one the
  optimistic append produced (no history load and no reset took effect in between), the
  transcript after the failure handler is identical, by content and order, to the
  transcript before the append, and the input buffer holds the submitted text with its
  leading and trailing white space trimmed. The in-flight flag is cleared and one error
  notification is shown.
\<close>

theorem failed_send_rolls_back:
  assumes "reachable s" and "\<not> isLoading s" and "trim (message s) \<noteq> []"
    and "req = ChatPost (''temp-'' @ show_nat (now clk)) (trim (message s))
                 (currentConversationId s) (userId s)"
    and "req \<in> set (inflight s')" and "messages s' = messages (step (Submit clk) s)"
  shows "req \<in> set (inflight (step (Submit clk) s)) \<and>
         messages (step (Rejected req) s') = messages s \<and>
         message (step (Rejected req) s') = trim (message s) \<and>
         \<not> isLoading (step (Rejected req) s') \<and>
         toasts (step (Rejected req) s') =
           toasts s' @ [ToastError ''Failed to send message. Please try again.'']"
proof -
  have inv: "send_inv s" by (rule reachable_send_inv [OF assms(1)])
  have sub: "step (Submit clk) s = handleSendMessage clk s" by (rule step_submit)
  have 1: "req \<in> set (inflight (step (Submit clk) s))"
    by (simp add: sub accepted_submit [OF assms(2,3)] assms(4))
  have m: "messages s' = messages s @
         [\<lparr>msg_id = ''temp-'' @ show_nat (now clk), role = ''user'', content = trim (message s),
           timestamp = iso clk, msg_shloka = None\<rparr>]"
    by (simp add: assms(6) sub accepted_submit [OF assms(2,3)])
  have r: "step (Rejected req) s' =
      handleSendMessage_rejected (''temp-'' @ show_nat (now clk)) (trim (message s)) (settle req s')"
    using assms(5) unfolding assms(4) by (rule step_rejected_chat)
  have f: "filter (\<lambda>m. msg_id m \<noteq> ''temp-'' @ show_nat (now clk)) (messages s) = messages s"
    by (rule idle_no_transient(2) [OF inv assms(2)])
  have 2: "messages (step (Rejected req) s') = messages s"
    using f by (simp add: r handleSendMessage_rejected_def settle_def m)
  show ?thesis using 1 2 by (simp add: r handleSendMessage_rejected_def settle_def)
qed

theorem failed_send_rolls_back_witness:
  "reachable typed \<and> \<not> isLoading typed \<and> trim (message typed) \<noteq> [] \<and>
   req0 \<in> set (inflight sending) \<and>
   messages (step (Rejected req0) sending) = [hist_a] \<and>
   message (step (Rejected req0) sending) = ''hello'' \<and>
   toasts (step (Rejected req0) sending) =
      [ToastError ''Failed to send message. Please try again.'']"
proof -
  have l: "\<not> isLoading typed" by (simp add: typed_eq)
  have t: "trim (message typed) \<noteq> []" by (simp add: typed_eq trim_def is_space_def)
  have q: "req0 = ChatPost (''temp-'' @ show_nat (now clk0)) (trim (message typed))
                 (currentConversationId typed) (userId typed)"
    by (simp add: req0_def temp0_def typed_eq trim_def is_space_def)
  have i: "req0 \<in> set (inflight sending)" by (simp add: sending_eq)
  have m: "messages sending = messages (step (Submit clk0) typed)"
    by (simp add: sending_def)
  have e: "messages typed = [hist_a]" "toasts sending = []" "trim (message typed) = ''hello''"
    by (simp_all add: typed_eq sending_eq trim_def is_space_def)
  from failed_send_rolls_back [OF reachable_typed l t q i m] reachable_typed l t i e
  show ?thesis by simp
qed

subsection \<open>C4: a send that succeeds\<close>

text \<open>
  C4, as stated, fails. The user asks for a new conversation while the send on \<open>A\<close> is in
  flight: the transcript, which held one confirmed entry before the send began, is
  cleared, so the reconciliation finds no transient entry to remove, and the final
  transcript holds two confirmed entries, not three.
\<close>

theorem successful_send_after_reset:
  "sending = step (Submit clk0) typed \<and>
   confirmed_count typed = 1 \<and>
   req0 \<in> set (inflight abandoned) \<and>
   pending_count abandoned = 0 \<and>
   messages (step (Resolved_chat req0 resp0) abandoned) = [srv_user, srv_guru] \<and>
   confirmed_count (step (Resolved_chat req0 resp0) abandoned) = 2"
  by (simp add: sending_def typed_eq abandoned_eq req0_def resp0_def hist_a_def srv_user_def
      srv_guru_def confirmed_count_def pending_count_def is_transient_def chat_defs)

text \<open>
  C4, amended. For every send that succeeds while the transcript is still the one the
  optimistic append produced (no history load and no reset took effect in between), the
  reconciliation is one update of the transcript that removes the one transient entry
  and appends the server's user message and the reply: the final transcript is the
  transcript from before the send followed by those two, it has one transient entry
  fewer than after the optimistic append and two confirmed entries more than before the
  send began.
\<close>

theorem successful_send_reconciles:
  assumes "reachable s" and "\<not> isLoading s" and "trim (message s) \<noteq> []"
    and "req = ChatPost (''temp-'' @ show_nat (now clk)) (trim (message s))
                 (currentConversationId s) (userId s)"
    and "req \<in> set (inflight s')" and "messages s' = messages (step (Submit clk) s)"
    and "\<not> is_transient (resp_message resp)" and "\<not> is_transient (guru_response resp)"
  shows "messages (step (Resolved_chat req resp) s') =
           messages s @ [resp_message resp, guru_response resp] \<and>
         pending_count s' = 1 \<and>
         pending_count (step (Resolved_chat req resp) s') = pending_count s' - 1 \<and>
         confirmed_count (step (Resolved_chat req resp) s') = confirmed_count s + 2"
proof -
  have inv: "send_inv s" by (rule reachable_send_inv [OF assms(1)])
  have sub: "step (Submit clk) s = handleSendMessage clk s" by (rule step_submit)
  have m: "messages s' = messages s @
         [\<lparr>msg_id = ''temp-'' @ show_nat (now clk), role = ''user'', content = trim (message s),
           timestamp = iso clk, msg_shloka = None\<rparr>]"
    by (simp add: assms(6) sub accepted_submit [OF assms(2,3)])
  have r: "step (Resolved_chat req resp) s' =
      effects (conversationId s')
        (handleSendMessage_resolved (''temp-'' @ show_nat (now clk)) (currentConversationId s)
           (userId s) resp (settle req s'))"
    using assms(5) unfolding assms(4) by (rule step_resolved_chat)
  have f: "filter (\<lambda>m. msg_id m \<noteq> ''temp-'' @ show_nat (now clk)) (messages s) = messages s"
    by (rule idle_no_transient(2) [OF inv assms(2)])
  have n: "filter is_transient (messages s) = []"
    by (rule idle_no_transient(1) [OF inv assms(2)])
  have 1: "messages (step (Resolved_chat req resp) s') =
           messages s @ [resp_message resp, guru_response resp]"
    using f by (simp add: r handleSendMessage_resolved_def settle_def navigate_def
        fetchConversations_def Let_def m)
  have 2: "pending_count s' = 1"
    using n by (simp add: pending_count_def m is_transient_def)
  have 3: "pending_count (step (Resolved_chat req resp) s') = 0"
    using n assms(7,8) by (simp add: pending_count_def 1)
  have 4: "confirmed_count (step (Resolved_chat req resp) s') = confirmed_count s + 2"
    using assms(7,8) by (simp add: confirmed_count_def 1)
  show ?thesis using 1 2 3 4 by simp
qed

theorem successful_send_reconciles_witness:
  "reachable typed \<and> \<not> isLoading typed \<and> trim (message typed) \<noteq> [] \<and>
   req0 \<in> set (inflight sending) \<and>
   \<not> is_transient (resp_message resp0) \<and> \<not> is_transient (guru_response resp0) \<and>
   messages (step (Resolved_chat req0 resp0) sending) = [hist_a, srv_user, srv_guru] \<and>
   pending_count sending = 1 \<and>
   pending_count (step (Resolved_chat req0 resp0) sending) = 0 \<and>
   confirmed_count typed = 1 \<and>
   confirmed_count (step (Resolved_chat req0 resp0) sending) = 3"
proof -
  have l: "\<not> isLoading typed" by (simp add: typed_eq)
  have t: "trim (message typed) \<noteq> []" by (simp add: typed_eq trim_def is_space_def)
  have q: "req0 = ChatPost (''temp-'' @ show_nat (now clk0)) (trim (message typed))
                 (currentConversationId typed) (userId typed)"
    by (simp add: req0_def temp0_def typed_eq trim_def is_space_def)
  have i: "req0 \<in> set (inflight sending)" by (simp add: sending_eq)
  have m: "messages sending = messages (step (Submit clk0) typed)"
    by (simp add: sending_def)
  have w: "\<not> is_transient (resp_message resp0)" "\<not> is_transient (guru_response resp0)"
    by (simp_all add: resp0_def srv_user_def srv_guru_def is_transient_def)
  have e: "messages typed = [hist_a]" "confirmed_count typed = 1"
    by (simp_all add: typed_eq confirmed_count_def hist_a_def is_transient_def)
  from successful_send_reconciles [OF reachable_typed l t q i m w] reachable_typed l t i w e
  show ?thesis by (simp add: resp0_def)
qed

subsection \<open>C5: a submission while a send is in flight\<close>

text \<open>
  C5, as stated, fails: no error comes out of the rejected attempt. A submit event with
  a non-blank buffer reaches \<open>handleSendMessage\<close> while a send is in flight and its pending
  message is shown (the form controls are disabled then, so the guard of the handler is
  the second barrier); the handler returns at its guard. No notification is added and
  the state after the attempt is the state before it.
\<close>

theorem concurrent_submit_raises_nothing:
  "isLoading (step (SetMessage ''again'') sending) \<and>
   pending_count (step (SetMessage ''again'') sending) = 1 \<and>
   trim (message (step (SetMessage ''again'') sending)) = ''again'' \<and>
   toasts (step (Submit clk0) (step (SetMessage ''again'') sending)) = [] \<and>
   step (Submit clk0) (step (SetMessage ''again'') sending) = step (SetMessage ''again'') sending"
  by (simp add: sending_eq step_set_message step_submit handleSendMessage_def pending_count_def
      is_transient_def temp0_transient hist_a_def trim_def is_space_def)

text \<open>
  C5, amended. In every reachable state in which a send is in flight or a pending message
  is shown, an attempt to start another send is ignored without any error: the handler
  returns before any network call, and the whole state (transcript, requests in flight
  and notifications included) is unchanged.
\<close>

theorem concurrent_submit_ignored:
  assumes "reachable s" and "isLoading s \<or> 0 < pending_count s"
  shows "step (Submit clk) s = s"
proof -
  have inv: "send_inv s" by (rule reachable_send_inv [OF assms(1)])
  have "isLoading s"
  proof (rule ccontr)
    assume n: "\<not> isLoading s"
    then have "filter is_transient (messages s) = []" by (rule idle_no_transient(1) [OF inv])
    then have "pending_count s = 0" by (simp add: pending_count_def)
    with n assms(2) show False by simp
  qed
  then show ?thesis by (simp add: step_submit handleSendMessage_def)
qed

theorem concurrent_submit_ignored_witness:
  "reachable sending \<and> isLoading sending \<and> 0 < pending_count sending \<and>
   step (Submit clk0) sending = sending"
proof -
  have l: "isLoading sending" by (simp add: sending_eq)
  have p: "0 < pending_count sending"
    by (simp add: sending_eq pending_count_def is_transient_def temp0_transient)
  from l have h: "isLoading sending \<or> 0 < pending_count sending" by simp
  from concurrent_submit_ignored [OF reachable_sending h, of clk0] reachable_sending l p
  show ?thesis by simp
qed

subsection \<open>C6: the first exchange of a new conversation\<close>

text \<open>
  C6. When the response to a send that was started with no active conversation id
  arrives, the id it carries becomes the active id and the route parameter, and the
  transcript is the one shown with the temporary entry replaced by the two server
  messages. No request for the messages of a conversation is put in flight: the effect on
  the route parameter finds the active id already equal to it and loads nothing. What is
  put in flight is the refresh of the sidebar list by the handler and, when the path has
  changed, one more by the effect on \<open>[navigate]\<close>.
\<close>

theorem draft_adopts_id_without_reload:
  "ChatPost t u cur uid \<in> set (inflight s) \<Longrightarrow> \<not> truthy cur \<Longrightarrow>
     currentConversationId (step (Resolved_chat (ChatPost t u cur uid) resp) s) =
       Some (conversation_id resp) \<and>
     conversationId (step (Resolved_chat (ChatPost t u cur uid) resp) s) =
       Some (conversation_id resp) \<and>
     messages (step (Resolved_chat (ChatPost t u cur uid) resp) s) =
       filter (\<lambda>m. msg_id m \<noteq> t) (messages s) @ [resp_message resp, guru_response resp] \<and>
     filter is_history_load (inflight (step (Resolved_chat (ChatPost t u cur uid) resp) s)) =
       filter is_history_load (inflight s) \<and>
     inflight (step (Resolved_chat (ChatPost t u cur uid) resp) s) =
       remove1 (ChatPost t u cur uid) (inflight s) @ [GetConversations uid] @
       (if conversationId s \<noteq> Some (conversation_id resp) \<and> truthy (storedUserId s)
        then [GetConversations (storedUserId s)] else [])"
proof -
  assume i: "ChatPost t u cur uid \<in> set (inflight s)" and n: "\<not> truthy cur"
  let ?h = "handleSendMessage_resolved t cur uid resp (settle (ChatPost t u cur uid) s)"
  have st: "step (Resolved_chat (ChatPost t u cur uid) resp) s = effects (conversationId s) ?h"
    by (rule step_resolved_chat [OF i])
  have c: "conversationId (settle (ChatPost t u cur uid) s) = conversationId s"
    by (simp add: settle_def)
  have q: "conversationId ?h = currentConversationId ?h \<or> \<not> truthy (conversationId ?h)"
    using n by (simp add: resolved_chat_fields)
  have 1: "currentConversationId (effects (conversationId s) ?h) = Some (conversation_id resp)"
    using n by (simp add: resolved_chat_quiet [OF c])
  have 2: "conversationId (effects (conversationId s) ?h) = Some (conversation_id resp)"
    using n by (simp add: resolved_chat_fields)
  have 3: "messages (effects (conversationId s) ?h) =
      filter (\<lambda>m. msg_id m \<noteq> t) (messages s) @ [resp_message resp, guru_response resp]"
    by (simp add: resolved_chat_fields settle_def)
  have 4: "inflight (effects (conversationId s) ?h) =
      remove1 (ChatPost t u cur uid) (inflight s) @ [GetConversations uid] @
      (if conversationId s \<noteq> Some (conversation_id resp) \<and> truthy (storedUserId s)
       then [GetConversations (storedUserId s)] else [])"
  proof -
    have "inflight (effects (conversationId s) ?h) =
        inflight ?h @ (if conversationId ?h \<noteq> conversationId s \<and> truthy (storedUserId ?h)
                       then [GetConversations (storedUserId ?h)] else [])"
      by (rule effects_quiet(2) [OF q])
    then show ?thesis using n by (auto simp: resolved_chat_fields settle_def)
  qed
  have "filter is_history_load (remove1 (ChatPost t u cur uid) (inflight s)) =
      filter is_history_load (inflight s)"
    by (simp add: filter_remove1 remove1_idem)
  then have 5: "filter is_history_load (inflight (effects (conversationId s) ?h)) =
      filter is_history_load (inflight s)"
    by (simp add: 4)
  show ?thesis unfolding st using 1 2 3 4 5 by blast
qed

theorem draft_adopts_id_without_reload_witness:
  "ChatPost temp0 ''What is dharma?'' None (Some ''u1'') \<in> set (inflight drafting) \<and>
   \<not> truthy None \<and>
   currentConversationId
     (step (Resolved_chat (ChatPost temp0 ''What is dharma?'' None (Some ''u1'')) resp0)
        drafting) = Some ''A'' \<and>
   messages
     (step (Resolved_chat (ChatPost temp0 ''What is dharma?'' None (Some ''u1'')) resp0)
        drafting) = [srv_user, srv_guru] \<and>
   filter is_history_load (inflight
     (step (Resolved_chat (ChatPost temp0 ''What is dharma?'' None (Some ''u1'')) resp0)
        drafting)) = [] \<and>
   inflight
     (step (Resolved_chat (ChatPost temp0 ''What is dharma?'' None (Some ''u1'')) resp0)
        drafting) =
     [GetConversations (Some ''u1''), GetConversations (Some ''u1''),
      GetConversations (Some ''u1'')]"
proof -
  have i: "ChatPost temp0 ''What is dharma?'' None (Some ''u1'') \<in> set (inflight drafting)"
    by (simp add: drafting_eq req_draft_def)
  have n: "\<not> truthy None" by (simp add: truthy_def)
  from draft_adopts_id_without_reload [OF i n, of resp0] i n show ?thesis
    by (simp add: drafting_eq req_draft_def resp0_def truthy_def)
qed

subsection \<open>C7: deleting the active conversation\<close>

text \<open>
  C7. When the user deletes the conversation that is active at that moment, the delete
  request is put in flight, and once it succeeds the active conversation id and the
  route parameter are null and the transcript is empty, whatever else the page shows by
  then.
\<close>

theorem delete_active_resets:
  assumes "currentConversationId s = Some c"
    and "req = DeleteReq c (currentConversationId s) (userId s)"
    and "req \<in> set (inflight s')"
  shows "req \<in> set (inflight (step (ClickDelete c) s)) \<and>
         currentConversationId (step (Resolved_delete req) s') = None \<and>
         conversationId (step (Resolved_delete req) s') = None \<and>
         messages (step (Resolved_delete req) s') = []"
proof -
  have 1: "req \<in> set (inflight (step (ClickDelete c) s))"
    by (simp add: step_click_delete handleDeleteConversation_def assms(2))
  have r: "step (Resolved_delete req) s' =
      effects (conversationId s')
        (handleDeleteConversation_resolved c (Some c) (userId s) (settle req s'))"
    using assms(3) unfolding assms(2) assms(1) by (rule step_resolved_delete)
  show ?thesis using 1
    by (simp add: r effects_quiet(1) resolved_delete_fields truthy_def)
qed

theorem delete_active_resets_witness:
  "currentConversationId chatted = Some ''A'' \<and>
   messages chatted = [hist_a, srv_user, srv_guru] \<and>
   DeleteReq ''A'' (Some ''A'') (Some ''u1'') \<in> set (inflight (step (ClickDelete ''A'') chatted)) \<and>
   currentConversationId (step (Resolved_delete (DeleteReq ''A'' (Some ''A'') (Some ''u1'')))
      (step (ClickDelete ''A'') chatted)) = None \<and>
   messages (step (Resolved_delete (DeleteReq ''A'' (Some ''A'') (Some ''u1'')))
      (step (ClickDelete ''A'') chatted)) = []"
proof -
  have a: "currentConversationId chatted = Some ''A''" by (simp add: chatted_eq)
  have q: "DeleteReq ''A'' (Some ''A'') (Some ''u1'') =
      DeleteReq ''A'' (currentConversationId chatted) (userId chatted)"
    by (simp add: chatted_eq)
  have i: "DeleteReq ''A'' (Some ''A'') (Some ''u1'') \<in>
      set (inflight (step (ClickDelete ''A'') chatted))"
    by (simp add: step_click_delete handleDeleteConversation_def chatted_eq)
  have m: "messages chatted = [hist_a, srv_user, srv_guru]" by (simp add: chatted_eq)
  from delete_active_resets [OF a q i] a m i show ?thesis by simp
qed

subsection \<open>C9: deleting another conversation\<close>

text \<open>
  C9. When the delete request of a conversation that was not the active one when the
  user deleted it succeeds, the transcript, the active conversation id, the route
  parameter, the input buffer and the in-flight flag are unchanged; the sidebar list
  itself is not touched either, and the one request put in flight is its refresh.
\<close>

theorem delete_other_keeps_transcript:
  assumes "DeleteReq c cur uid \<in> set (inflight s)" and "cur \<noteq> Some c"
  shows "messages (step (Resolved_delete (DeleteReq c cur uid)) s) = messages s \<and>
         currentConversationId (step (Resolved_delete (DeleteReq c cur uid)) s) =
           currentConversationId s \<and>
         conversationId (step (Resolved_delete (DeleteReq c cur uid)) s) = conversationId s \<and>
         message (step (Resolved_delete (DeleteReq c cur uid)) s) = message s \<and>
         isLoading (step (Resolved_delete (DeleteReq c cur uid)) s) = isLoading s \<and>
         conversations (step (Resolved_delete (DeleteReq c cur uid)) s) = conversations s \<and>
         inflight (step (Resolved_delete (DeleteReq c cur uid)) s) =
           remove1 (DeleteReq c cur uid) (inflight s) @ [GetConversations uid]"
proof -
  have n: "Some c \<noteq> cur" using assms(2) by auto
  have "conversationId
          (handleDeleteConversation_resolved c cur uid (settle (DeleteReq c cur uid) s)) =
        conversationId s"
    by (simp add: resolved_delete_fields n settle_def)
  then have "step (Resolved_delete (DeleteReq c cur uid)) s =
      handleDeleteConversation_resolved c cur uid (settle (DeleteReq c cur uid) s)"
    by (simp add: step_resolved_delete [OF assms(1)] effects_same)
  then show ?thesis
    by (simp add: resolved_delete_fields n settle_def)
qed

theorem delete_other_keeps_transcript_witness:
  "DeleteReq ''B'' (Some ''A'') (Some ''u1'') \<in> set (inflight (step (ClickDelete ''B'') chatted)) \<and>
   Some ''A'' \<noteq> Some ''B'' \<and>
   messages (step (Resolved_delete (DeleteReq ''B'' (Some ''A'') (Some ''u1'')))
      (step (ClickDelete ''B'') chatted)) = [hist_a, srv_user, srv_guru] \<and>
   currentConversationId (step (Resolved_delete (DeleteReq ''B'' (Some ''A'') (Some ''u1'')))
      (step (ClickDelete ''B'') chatted)) = Some ''A''"
proof -
  have i: "DeleteReq ''B'' (Some ''A'') (Some ''u1'') \<in>
      set (inflight (step (ClickDelete ''B'') chatted))"
    by (simp add: step_click_delete handleDeleteConversation_def chatted_eq)
  have n: "Some ''A'' \<noteq> Some ''B''" by simp
  from delete_other_keeps_transcript [OF i n] i show ?thesis
    by (simp add: step_click_delete handleDeleteConversation_def chatted_eq)
qed

subsection \<open>C10: the in-flight flag after a send\<close>

text \<open>
  C10. Once the request of a send resolves or rejects, the in-flight flag is false, in
  whatever state the page is by then, and the next submission of a non-blank text is
  accepted: it sets the flag, appends its pending message and puts its request in flight.
\<close>

theorem send_completion_unblocks:
  assumes "ChatPost t u cur uid \<in> set (inflight s)" and "trim x \<noteq> []"
    and "s' = step (Resolved_chat (ChatPost t u cur uid) resp) s \<or>
         s' = step (Rejected (ChatPost t u cur uid)) s"
  shows "\<not> isLoading s' \<and>
         isLoading (step (Submit clk) (step (SetMessage x) s')) \<and>
         messages (step (Submit clk) (step (SetMessage x) s')) =
           messages s' @
             [\<lparr>msg_id = ''temp-'' @ show_nat (now clk), role = ''user'', content = trim x,
               timestamp = iso clk, msg_shloka = None\<rparr>] \<and>
         inflight (step (Submit clk) (step (SetMessage x) s')) =
           inflight s' @
             [ChatPost (''temp-'' @ show_nat (now clk)) (trim x) (currentConversationId s')
                (userId s')]"
proof -
  have l: "\<not> isLoading s'"
    using assms(3)
    by (auto simp: step_resolved_chat [OF assms(1)] step_rejected_chat [OF assms(1)]
        resolved_chat_fields handleSendMessage_rejected_def)
  then have l': "\<not> isLoading (s'\<lparr>message := x\<rparr>)" by simp
  have t: "trim (message (s'\<lparr>message := x\<rparr>)) \<noteq> []" using assms(2) by simp
  show ?thesis
    using l by (simp add: step_set_message step_submit accepted_submit [OF l' t])
qed

theorem send_completion_unblocks_witness:
  "ChatPost temp0 ''hello'' (Some ''A'') (Some ''u1'') \<in> set (inflight sending) \<and>
   trim ''hello'' \<noteq> [] \<and>
   isLoading sending \<and>
   \<not> isLoading (step (Rejected (ChatPost temp0 ''hello'' (Some ''A'') (Some ''u1''))) sending) \<and>
   message (step (Rejected (ChatPost temp0 ''hello'' (Some ''A'') (Some ''u1''))) sending) =
     ''hello'' \<and>
   isLoading (step (Submit clk0) (step (SetMessage ''hello'')
      (step (Rejected (ChatPost temp0 ''hello'' (Some ''A'') (Some ''u1''))) sending)))"
proof -
  have i: "ChatPost temp0 ''hello'' (Some ''A'') (Some ''u1'') \<in> set (inflight sending)"
    by (simp add: sending_eq req0_def)
  have t: "trim ''hello'' \<noteq> []" by (simp add: trim_def is_space_def)
  have d: "step (Rejected (ChatPost temp0 ''hello'' (Some ''A'') (Some ''u1''))) sending =
       step (Resolved_chat (ChatPost temp0 ''hello'' (Some ''A'') (Some ''u1'')) resp0) sending \<or>
     step (Rejected (ChatPost temp0 ''hello'' (Some ''A'') (Some ''u1''))) sending =
       step (Rejected (ChatPost temp0 ''hello'' (Some ''A'') (Some ''u1''))) sending" by simp
  have m: "message (step (Rejected (ChatPost temp0 ''hello'' (Some ''A'') (Some ''u1''))) sending) =
      ''hello''"
    by (simp add: step_rejected_chat [OF i] handleSendMessage_rejected_def)
  have l: "isLoading sending" by (simp add: sending_eq)
  from send_completion_unblocks [OF i t d, of clk0] i t m l show ?thesis by simp
qed

subsection \<open>C8: a blank submission\<close>

text \<open>
  C8. When the outgoing text is empty or holds white space only, submitting the form does
  nothing at all: the whole state is unchanged, so no request is put in flight and the
  transcript and the active conversation id stay as they were.
\<close>

theorem blank_submit_rejected:
  "trim (message s) = [] \<Longrightarrow>
     step (Submit clk) s = s \<and>
     inflight (step (Submit clk) s) = inflight s \<and>
     messages (step (Submit clk) s) = messages s \<and>
     currentConversationId (step (Submit clk) s) = currentConversationId s"
  by (simp add: step_def handleSendMessage_def effects_def)

theorem blank_submit_rejected_witness:
  "trim (message (step (SetMessage [CHR '' '', CHR 0x09, CHR '' '']) opened)) = [] \<and>
   step (Submit clk0) (step (SetMessage [CHR '' '', CHR 0x09, CHR '' '']) opened) =
     step (SetMessage [CHR '' '', CHR 0x09, CHR '' '']) opened \<and>
   inflight (step (Submit clk0) (step (SetMessage [CHR '' '', CHR 0x09, CHR '' '']) opened)) = [] \<and>
   messages (step (Submit clk0) (step (SetMessage [CHR '' '', CHR 0x09, CHR '' '']) opened)) =
     [hist_a]"
proof -
  have b: "trim (message (step (SetMessage [CHR '' '', CHR 0x09, CHR '' '']) opened)) = []"
    by (simp add: step_set_message trim_def is_space_def)
  have i: "inflight (step (SetMessage [CHR '' '', CHR 0x09, CHR '' '']) opened) = []"
      "messages (step (SetMessage [CHR '' '', CHR 0x09, CHR '' '']) opened) = [hist_a]"
    by (simp_all add: step_set_message opened_eq)
  from blank_submit_rejected [OF b, of clk0] b i show ?thesis by simp
qed

end
